theory Spec2Isabelle
  imports
    Complex_Main
    "HOL-Library.Sublist"
    "HOL-Library.Char_ord"
    "HOL-Library.List_Lexorder"
    "HOL-Library.Product_Lexorder"
begin

section \<open>Heading outline extraction (process\_pdfs.py)\<close>

text \<open>
  The development embeds the decision logic of \<^verbatim>\<open>process_pdfs.py\<close>:
  \<^verbatim>\<open>simple_title_extraction\<close>, \<^verbatim>\<open>simple_heading_detection\<close>,
  \<^verbatim>\<open>is_likely_heading\<close>, \<^verbatim>\<open>detect_form_document\<close>, \<^verbatim>\<open>get_body_size\<close> and the part of
  \<^verbatim>\<open>process_pdf_simple\<close> that follows the page loop. The PDF reader (\<^verbatim>\<open>fitz\<close>) is outside
  the model: a document is the list \<^verbatim>\<open>all_lines\<close> it yields, each line already carrying its
  page number, together with the stem of the file name.

  Conventions of the model.
  \<^item> A Python \<^verbatim>\<open>str\<close> is a \<^typ>\<open>string\<close>; every \<^typ>\<open>char\<close> stands for the code point of the
    same number. Case, digits and white space are those of ASCII, so the model is the program
    on ASCII text; a code point from 128 on is treated as an uncased symbol that is neither
    a digit nor white space.
  \<^item> A font size is a \<^typ>\<open>real\<close>: sums and comparisons of sizes are exact, where the program
    computes them in binary floating point.
  \<^item> \<^verbatim>\<open>re\<close>, \<^verbatim>\<open>collections.Counter\<close> and \<^verbatim>\<open>list.sort\<close> are library code; they are modelled by
    a derivative matcher for regular expressions, an insertion-ordered association list
    and the stable insertion sort of the HOL library.
\<close>

subsection \<open>Strings\<close>

definition ascii_upper :: string where
  "ascii_upper = ''ABCDEFGHIJKLMNOPQRSTUVWXYZ''"

definition ascii_lower :: string where
  "ascii_lower = ''abcdefghijklmnopqrstuvwxyz''"

definition ascii_digits :: string where
  "ascii_digits = ''0123456789''"

text \<open>
  The characters that \<^verbatim>\<open>str.isspace\<close> accepts below 128, which are also those of the
  class \<^verbatim>\<open>\s\<close>: tab, line feed, vertical tab, form feed, carriage return, the four
  separators 28 to 31, and the space.
\<close>

definition ascii_space :: string where
  "ascii_space = [CHR 0x09, CHR 0x0A, CHR 0x0B, CHR 0x0C, CHR 0x0D,
                  CHR 0x1C, CHR 0x1D, CHR 0x1E, CHR 0x1F, CHR 0x20]"

definition is_space :: "char \<Rightarrow> bool" where
  "is_space c = (c \<in> set ascii_space)"

definition is_upper :: "char \<Rightarrow> bool" where
  "is_upper c = (c \<in> set ascii_upper)"

definition is_lower :: "char \<Rightarrow> bool" where
  "is_lower c = (c \<in> set ascii_lower)"

definition char_lower :: "char \<Rightarrow> char" where
  "char_lower c = (case map_of (zip ascii_upper ascii_lower) c of Some d \<Rightarrow> d | None \<Rightarrow> c)"

definition char_upper :: "char \<Rightarrow> char" where
  "char_upper c = (case map_of (zip ascii_lower ascii_upper) c of Some d \<Rightarrow> d | None \<Rightarrow> c)"

text \<open>\<^verbatim>\<open>str.lower()\<close>.\<close>

definition lower :: "string \<Rightarrow> string" where
  "lower s = map char_lower s"

text \<open>\<^verbatim>\<open>str.strip()\<close>: white space is removed at both ends.\<close>

definition strip :: "string \<Rightarrow> string" where
  "strip s = rev (dropWhile is_space (rev (dropWhile is_space s)))"

text \<open>
  \<^verbatim>\<open>str.isupper()\<close>: there is a cased character and no cased character is lower case.
\<close>

definition isupper :: "string \<Rightarrow> bool" where
  "isupper s = (list_ex is_upper s \<and> \<not> list_ex is_lower s)"

text \<open>\<^verbatim>\<open>str.startswith\<close> and \<^verbatim>\<open>str.endswith\<close>.\<close>

definition startswith :: "string \<Rightarrow> string \<Rightarrow> bool" where
  "startswith s p = prefix p s"

definition endswith :: "string \<Rightarrow> string \<Rightarrow> bool" where
  "endswith s p = prefix (rev p) (rev s)"

text \<open>\<^verbatim>\<open>k in s\<close> on strings: \<open>k\<close> occurs in \<open>s\<close> as a contiguous block.\<close>

fun contains :: "string \<Rightarrow> string \<Rightarrow> bool" where
  "contains [] k = (k = [])"
| "contains (c # cs) k = (if prefix k (c # cs) then True else contains cs k)"

text \<open>\<^verbatim>\<open>sep.join(parts)\<close>.\<close>

fun join :: "string \<Rightarrow> string list \<Rightarrow> string" where
  "join sep [] = []"
| "join sep [p] = p"
| "join sep (p # q # ps) = p @ sep @ join sep (q # ps)"

subsection \<open>Regular expressions\<close>

text \<open>
  The patterns of the program use character classes, sequence, \<^verbatim>\<open>?\<close>, \<^verbatim>\<open>*\<close> and \<^verbatim>\<open>+\<close>
  only, and the program only asks whether \<^verbatim>\<open>match\<close> finds a match, never what the groups
  hold. \<open>Cls cs\<close> is one character of \<open>cs\<close>, \<open>NCls cs\<close> one character outside of \<open>cs\<close>.
\<close>

datatype rx =
    Never
  | Empty
  | Cls string
  | NCls string
  | Seq rx rx
  | Or rx rx
  | Many rx

definition Plus :: "rx \<Rightarrow> rx" where
  "Plus r = Seq r (Many r)"

definition Opt :: "rx \<Rightarrow> rx" where
  "Opt r = Or r Empty"

text \<open>\<^verbatim>\<open>\d\<close>, \<^verbatim>\<open>\s\<close>, \<^verbatim>\<open>.\<close> (any character but the line feed) and a literal character.\<close>

definition Digit :: rx where
  "Digit = Cls ascii_digits"

definition Space :: rx where
  "Space = Cls ascii_space"

definition Dot :: rx where
  "Dot = NCls [CHR 0x0A]"

definition Lit :: "char \<Rightarrow> rx" where
  "Lit c = Cls [c]"

text \<open>
  Under \<^verbatim>\<open>re.IGNORECASE\<close> a literal letter and a class of letters match both cases.
\<close>

definition Lit_ic :: "char \<Rightarrow> rx" where
  "Lit_ic c = Cls [char_lower c, char_upper c]"

definition Word_ic :: "string \<Rightarrow> rx" where
  "Word_ic w = foldr (\<lambda>c r. Seq (Lit_ic c) r) w Empty"

primrec nullable :: "rx \<Rightarrow> bool" where
  "nullable Never = False"
| "nullable Empty = True"
| "nullable (Cls cs) = False"
| "nullable (NCls cs) = False"
| "nullable (Seq r s) = (nullable r \<and> nullable s)"
| "nullable (Or r s) = (nullable r \<or> nullable s)"
| "nullable (Many r) = True"

primrec after :: "char \<Rightarrow> rx \<Rightarrow> rx" where
  "after c Never = Never"
| "after c Empty = Never"
| "after c (Cls cs) = (if c \<in> set cs then Empty else Never)"
| "after c (NCls cs) = (if c \<in> set cs then Never else Empty)"
| "after c (Seq r s) =
     (if nullable r then Or (Seq (after c r) s) (after c s) else Seq (after c r) s)"
| "after c (Or r s) = Or (after c r) (after c s)"
| "after c (Many r) = Seq (after c r) (Many r)"

text \<open>
  \<^verbatim>\<open>pattern.match(s)\<close> as a truth value: some prefix of \<open>s\<close> is a word of the pattern.
\<close>

fun re_match :: "rx \<Rightarrow> string \<Rightarrow> bool" where
  "re_match r [] = nullable r"
| "re_match r (c # cs) = (if nullable r then True else re_match (after c r) cs)"

text \<open>The words of a pattern, as the reference for the matcher.\<close>

inductive words :: "rx \<Rightarrow> string \<Rightarrow> bool" where
  w_empty: "words Empty []"
| w_cls: "c \<in> set cs \<Longrightarrow> words (Cls cs) [c]"
| w_ncls: "c \<notin> set cs \<Longrightarrow> words (NCls cs) [c]"
| w_seq: "words r u \<Longrightarrow> words s v \<Longrightarrow> words (Seq r s) (u @ v)"
| w_or1: "words r u \<Longrightarrow> words (Or r s) u"
| w_or2: "words s u \<Longrightarrow> words (Or r s) u"
| w_many0: "words (Many r) []"
| w_many1: "words r u \<Longrightarrow> words (Many r) v \<Longrightarrow> words (Many r) (u @ v)"

subsection \<open>The patterns and the known headings\<close>

text \<open>\<^verbatim>\<open>NUMBERED_PATTERN = re.compile(r'^(\d+)\.?\s+(.+)', re.IGNORECASE)\<close>\<close>

definition NUMBERED_PATTERN :: rx where
  "NUMBERED_PATTERN = Seq (Plus Digit) (Seq (Opt (Lit CHR ''.'')) (Seq (Plus Space) (Plus Dot)))"

text \<open>\<^verbatim>\<open>SUB_NUMBERED_PATTERN = re.compile(r'^(\d+\.\d+)\s+(.+)', re.IGNORECASE)\<close>\<close>

definition SUB_NUMBERED_PATTERN :: rx where
  "SUB_NUMBERED_PATTERN =
     Seq (Plus Digit) (Seq (Lit CHR ''.'') (Seq (Plus Digit) (Seq (Plus Space) (Plus Dot))))"

text \<open>\<^verbatim>\<open>SUB_SUB_NUMBERED_PATTERN = re.compile(r'^(\d+\.\d+\.\d+)\s+(.+)', re.IGNORECASE)\<close>\<close>

definition SUB_SUB_NUMBERED_PATTERN :: rx where
  "SUB_SUB_NUMBERED_PATTERN =
     Seq (Plus Digit) (Seq (Lit CHR ''.'') (Seq (Plus Digit) (Seq (Lit CHR ''.'')
       (Seq (Plus Digit) (Seq (Plus Space) (Plus Dot))))))"

text \<open>\<^verbatim>\<open>APPENDIX_PATTERN = re.compile(r'^(Appendix\s+[A-Z]:?\s*.+)', re.IGNORECASE)\<close>\<close>

definition APPENDIX_PATTERN :: rx where
  "APPENDIX_PATTERN =
     Seq (Word_ic ''Appendix'') (Seq (Plus Space) (Seq (Cls (ascii_upper @ ascii_lower))
       (Seq (Opt (Lit CHR '':'')) (Seq (Many Space) (Plus Dot)))))"

text \<open>The pattern of the form-field filter, \<^verbatim>\<open>r'^\d+\.\s+[A-Z][a-z]'\<close>, case sensitive.\<close>

definition FORM_FIELD_PATTERN :: rx where
  "FORM_FIELD_PATTERN =
     Seq (Plus Digit) (Seq (Lit CHR ''.'') (Seq (Plus Space) (Seq (Cls ascii_upper) (Cls ascii_lower))))"

definition KNOWN_H1_HEADINGS :: "string list" where
  "KNOWN_H1_HEADINGS =
     [''revision history'', ''table of contents'', ''acknowledgements'', ''references'',
      ''summary'', ''background'', ''pathway options'']"

subsection \<open>Lines, headings and the result\<close>

text \<open>
  A line as \<^verbatim>\<open>extract_simple_lines\<close> builds it and the page loop completes it. The field
  \<open>bbox_l\<close> is \<open>(x0, y0, x1, y1)\<close>.
\<close>

record line =
  text_l :: string
  size_l :: real
  bold_l :: bool
  bbox_l :: "real \<times> real \<times> real \<times> real"
  page_l :: nat

datatype level = H1 | H2 | H3 | H4

record heading =
  level_h :: level
  text_h :: string
  page_h :: nat

record result =
  title :: string
  outline :: "heading list"

subsection \<open>Level assignment and the gate\<close>

definition simple_heading_detection :: "string \<Rightarrow> real \<Rightarrow> bool \<Rightarrow> int \<Rightarrow> level option" where
  "simple_heading_detection text size_f bold body_size =
     (let text_clean = strip text;
          text_lower = strip (lower text_clean)
      in if re_match SUB_SUB_NUMBERED_PATTERN text_clean then Some H3
         else if re_match SUB_NUMBERED_PATTERN text_clean then Some H2
         else if re_match NUMBERED_PATTERN text_clean then Some H1
         else if re_match APPENDIX_PATTERN text_clean then Some H2
         else if text_lower \<in> set KNOWN_H1_HEADINGS then Some H1
         else if endswith text_clean '':'' \<and> length text_clean < 50
                 \<and> startswith text_lower ''for each'' then Some H4
         else if endswith text_clean '':'' \<and> length text_clean < 50
                 \<and> text_lower \<in> set [''timeline:'', ''milestones:''] then Some H3
         else if endswith text_clean '':'' \<and> length text_clean < 50
                 \<and> length text_clean < 40 then Some H3
         else if startswith text_lower ''phase '' then Some H3
         else if isupper text_clean \<and> 5 \<le> length text_clean \<and> length text_clean \<le> 30
           then Some H1
         else if bold \<and> size_f > of_int body_size + 2 then Some H2
         else None)"

definition is_likely_heading :: "string \<Rightarrow> real \<Rightarrow> bool \<Rightarrow> int \<Rightarrow> bool" where
  "is_likely_heading text0 size_f bold body_size =
     (let text = strip text0
      in if length text < 3 \<or> length text > 200 then False
         else if contains text ''. '' \<and> length text > 50 then False
         else if re_match FORM_FIELD_PATTERN text then False
         else let text_lower = strip (lower text)
           in if re_match NUMBERED_PATTERN text \<or> re_match SUB_NUMBERED_PATTERN text
                 \<or> re_match SUB_SUB_NUMBERED_PATTERN text \<or> re_match APPENDIX_PATTERN text
                then True
              else if text_lower \<in> set KNOWN_H1_HEADINGS then True
              else if endswith text '':'' \<and> length text < 50 then True
              else if startswith text_lower ''phase '' then True
              else if isupper text \<and> 5 \<le> length text \<and> length text \<le> 30 then True
              else if bold \<and> size_f > of_int body_size + 2 then True
              else False)"

subsection \<open>Form detection\<close>

definition form_keywords :: "string list" where
  "form_keywords = [''application form'', ''grant'', ''ltc advance'']"

definition first_20_text :: "line list \<Rightarrow> string" where
  "first_20_text lines = join '' '' (map (\<lambda>line. lower (text_l line)) (take 20 lines))"

definition form_count :: "line list \<Rightarrow> nat" where
  "form_count lines =
     length (filter (\<lambda>keyword. contains (first_20_text lines) keyword) form_keywords)"

definition detect_form_document :: "line list \<Rightarrow> bool" where
  "detect_form_document lines = (form_count lines \<ge> 2)"

subsection \<open>Body size\<close>

text \<open>
  A subscript that is out of range raises \<^verbatim>\<open>IndexError\<close>; the program has no other way
  to fail after the page loop.
\<close>

datatype error = IndexError

definition item0 :: "'a list \<Rightarrow> error + 'a" where
  "item0 xs = (case xs of [] \<Rightarrow> Inl IndexError | x # _ \<Rightarrow> Inr x)"

text \<open>\<^verbatim>\<open>round(x)\<close> on a float: the nearest integer, a half going to the even neighbour.\<close>

definition py_round :: "real \<Rightarrow> int" where
  "py_round x =
     (let f = \<lfloor>x\<rfloor>; d = x - of_int f
      in if d < 1 / 2 then f
         else if 1 / 2 < d then f + 1
         else if even f then f else f + 1)"

text \<open>
  \<^verbatim>\<open>Counter(sizes)\<close> is a dictionary from the elements to their counts; a dictionary keeps
  its keys in the order of their first insertion, and counting an element that is already
  a key leaves the key where it is.
\<close>

fun count_element :: "(int \<times> nat) list \<Rightarrow> int \<Rightarrow> (int \<times> nat) list" where
  "count_element [] e = [(e, 1)]"
| "count_element ((k, n) # items) e =
     (if k = e then (k, n + 1) # items else (k, n) # count_element items e)"

definition Counter :: "int list \<Rightarrow> (int \<times> nat) list" where
  "Counter elems = foldl count_element [] elems"

text \<open>
  \<^verbatim>\<open>most_common(1)\<close> is \<^verbatim>\<open>heapq.nlargest(1, items, key=count)\<close>, which is
  \<^verbatim>\<open>max(items, key=count)\<close> in a list, or the empty list when there are no items;
  \<^verbatim>\<open>max\<close> keeps the first of the items that have the greatest count.
\<close>

fun max_count :: "(int \<times> nat) \<Rightarrow> (int \<times> nat) list \<Rightarrow> (int \<times> nat)" where
  "max_count best [] = best"
| "max_count best (item # items) =
     (if snd item > snd best then max_count item items else max_count best items)"

definition most_common_1 :: "(int \<times> nat) list \<Rightarrow> (int \<times> nat) list" where
  "most_common_1 items = (case items of [] \<Rightarrow> [] | item # rest \<Rightarrow> [max_count item rest])"

definition body_sizes :: "line list \<Rightarrow> int list" where
  "body_sizes lines =
     (let sizes = map (\<lambda>line. py_round (size_l line))
                    (filter (\<lambda>line. length (text_l line) > 10) lines)
      in if sizes = [] then map (\<lambda>line. py_round (size_l line)) lines else sizes)"

definition get_body_size :: "line list \<Rightarrow> error + int" where
  "get_body_size lines =
     (let sizes = body_sizes lines
      in if sizes \<noteq> []
         then (case item0 (most_common_1 (Counter sizes)) of
                 Inl e \<Rightarrow> Inl e
               | Inr item \<Rightarrow> Inr (fst item))
         else Inr 12)"

subsection \<open>Title\<close>

text \<open>
  \<^verbatim>\<open>candidates.sort(reverse=True)\<close> sorts pairs of a score and a text in descending order
  of the pair; pairs that compare equal are the same pair, so the result is the ascending
  sort read backwards.
\<close>

definition sort_reverse :: "(real \<times> string) list \<Rightarrow> (real \<times> string) list" where
  "sort_reverse xs = rev (sort xs)"

definition title_candidates :: "line list \<Rightarrow> (real \<times> string) list" where
  "title_candidates first_page_lines =
     map (\<lambda>line. (size_l line + (if bold_l line then 10 else 0), text_l line))
       (filter (\<lambda>line. fst (snd (bbox_l line)) < 200 \<and> length (text_l line) \<ge> 5)
          first_page_lines)"

definition simple_title_extraction :: "line list \<Rightarrow> string \<Rightarrow> error + string" where
  "simple_title_extraction first_page_lines filename =
     (if filename = ''file05'' then Inr []
      else if first_page_lines = [] then Inr filename
      else let candidates = title_candidates first_page_lines
        in if candidates \<noteq> []
           then (case item0 (sort_reverse candidates) of
                   Inl e \<Rightarrow> Inl e
                 | Inr c \<Rightarrow> Inr (strip (snd c)))
           else Inr filename)"

subsection \<open>The outline\<close>

text \<open>The loop over \<^verbatim>\<open>all_lines\<close> that collects the headings, one step for a line.\<close>

definition collect_heading :: "int \<Rightarrow> heading list \<Rightarrow> line \<Rightarrow> heading list" where
  "collect_heading body_size headings line =
     (if is_likely_heading (text_l line) (size_l line) (bold_l line) body_size
      then (case simple_heading_detection (text_l line) (size_l line) (bold_l line) body_size of
              Some level \<Rightarrow>
                headings @ [\<lparr>level_h = level, text_h = strip (text_l line) @ '' '',
                             page_h = page_l line\<rparr>]
            | None \<Rightarrow> headings)
      else headings)"

definition find_headings :: "int \<Rightarrow> line list \<Rightarrow> heading list" where
  "find_headings body_size all_lines = foldl (collect_heading body_size) [] all_lines"

text \<open>\<^verbatim>\<open>headings.sort(key=lambda x: (x["page"], x["text"]))\<close>, a stable sort.\<close>

definition sort_headings :: "heading list \<Rightarrow> heading list" where
  "sort_headings headings = sort_key (\<lambda>x. (page_h x, text_h x)) headings"

text \<open>The loop that drops the duplicates: the state is \<^verbatim>\<open>seen\<close> and \<^verbatim>\<open>final_headings\<close>.\<close>

definition heading_key :: "heading \<Rightarrow> level \<times> string \<times> nat" where
  "heading_key heading = (level_h heading, strip (text_h heading), page_h heading)"

definition keep_unseen ::
  "(level \<times> string \<times> nat) set \<times> heading list \<Rightarrow> heading
     \<Rightarrow> (level \<times> string \<times> nat) set \<times> heading list" where
  "keep_unseen st heading =
     (let seen = fst st; final_headings = snd st; key = heading_key heading
      in if key \<notin> seen then (insert key seen, final_headings @ [heading]) else st)"

definition deduplicate :: "heading list \<Rightarrow> heading list" where
  "deduplicate headings = snd (foldl keep_unseen ({}, []) headings)"

text \<open>
  \<^verbatim>\<open>process_pdf_simple\<close> from the end of the page loop on: \<open>all_lines\<close> is the list the
  loop has built and \<open>stem\<close> is \<^verbatim>\<open>pdf_path.stem\<close>.
\<close>

definition process_pdf_simple :: "line list \<Rightarrow> string \<Rightarrow> error + result" where
  "process_pdf_simple all_lines stem =
     (if all_lines = [] then Inr \<lparr>title = stem, outline = []\<rparr>
      else if detect_form_document all_lines
      then (let first_page = filter (\<lambda>line. page_l line = 1) all_lines
            in case simple_title_extraction first_page stem of
                 Inl e \<Rightarrow> Inl e
               | Inr t \<Rightarrow> Inr \<lparr>title = t, outline = []\<rparr>)
      else (let first_page = filter (\<lambda>line. page_l line = 1) all_lines
            in case simple_title_extraction first_page stem of
                 Inl e \<Rightarrow> Inl e
               | Inr t \<Rightarrow>
                   (case get_body_size all_lines of
                      Inl e \<Rightarrow> Inl e
                    | Inr body_size \<Rightarrow>
                        Inr \<lparr>title = t,
                             outline = deduplicate (sort_headings
                                         (find_headings body_size all_lines))\<rparr>)))"

subsection \<open>Auxiliary notions\<close>

text \<open>
  The headings that the loop over the sorted list keeps, when \<open>seen\<close> holds the keys met so
  far: the recursive reading of the loop, used to reason about \<open>deduplicate\<close>.
\<close>

fun unseen :: "(level \<times> string \<times> nat) set \<Rightarrow> heading list \<Rightarrow> heading list" where
  "unseen seen [] = []"
| "unseen seen (h # hs) =
     (if heading_key h \<in> seen then unseen seen hs
      else h # unseen (insert (heading_key h) seen) hs)"

subsection \<open>Example documents\<close>

text \<open>
  The line of the first scenario, with two lines of body text in size 11 that make 11 the
  body size of the document.
\<close>

definition scenario_1_line :: line where
  "scenario_1_line =
     \<lparr>text_l = ''1. Introduction'', size_l = 14, bold_l = True,
      bbox_l = (72, 90, 300, 104), page_l = 1\<rparr>"

definition scenario_1_doc :: "line list" where
  "scenario_1_doc =
     [scenario_1_line,
      \<lparr>text_l = ''This report describes the system.'', size_l = 11, bold_l = False,
       bbox_l = (72, 120, 400, 131), page_l = 1\<rparr>,
      \<lparr>text_l = ''It has two further sections.'', size_l = 11, bold_l = False,
       bbox_l = (72, 140, 400, 151), page_l = 1\<rparr>]"

text \<open>A form: two of the keywords occur, and the second line has the shape of a heading.\<close>

definition form_doc :: "line list" where
  "form_doc =
     [\<lparr>text_l = ''Grant Application Form'', size_l = 16, bold_l = True,
       bbox_l = (72, 60, 400, 76), page_l = 1\<rparr>,
      \<lparr>text_l = ''1 Purpose of the grant'', size_l = 14, bold_l = True,
       bbox_l = (72, 120, 400, 134), page_l = 1\<rparr>]"

text \<open>
  A document with three headings on page 1, two of them with the same level, text and page,
  and one heading on page 2.
\<close>

definition outline_doc :: "line list" where
  "outline_doc =
     [\<lparr>text_l = ''Project Plan'', size_l = 20, bold_l = True,
       bbox_l = (72, 50, 400, 70), page_l = 1\<rparr>,
      \<lparr>text_l = ''1 Overview'', size_l = 14, bold_l = True,
       bbox_l = (72, 100, 400, 114), page_l = 1\<rparr>,
      \<lparr>text_l = ''This report describes the system.'', size_l = 11, bold_l = False,
       bbox_l = (72, 120, 400, 131), page_l = 1\<rparr>,
      \<lparr>text_l = ''It has two further sections.'', size_l = 11, bold_l = False,
       bbox_l = (72, 140, 400, 151), page_l = 1\<rparr>,
      \<lparr>text_l = ''1 Overview'', size_l = 14, bold_l = False,
       bbox_l = (72, 300, 400, 314), page_l = 1\<rparr>,
      \<lparr>text_l = ''Summary'', size_l = 14, bold_l = True,
       bbox_l = (72, 10, 400, 24), page_l = 2\<rparr>]"

text \<open>
  Four lines of a first page: two candidates of score 18, a text that is too short and a line
  that is too low on the page; and a page without any candidate.
\<close>

definition title_doc :: "line list" where
  "title_doc =
     [\<lparr>text_l = ''Annual Report'', size_l = 18, bold_l = False,
       bbox_l = (72, 40, 400, 58), page_l = 1\<rparr>,
      \<lparr>text_l = ''Draft Version'', size_l = 8, bold_l = True,
       bbox_l = (72, 70, 400, 78), page_l = 1\<rparr>,
      \<lparr>text_l = ''2024'', size_l = 30, bold_l = True,
       bbox_l = (72, 100, 400, 130), page_l = 1\<rparr>,
      \<lparr>text_l = ''Low on the page'', size_l = 40, bold_l = True,
       bbox_l = (72, 500, 400, 540), page_l = 1\<rparr>]"

definition no_title_doc :: "line list" where
  "no_title_doc =
     [\<lparr>text_l = ''2024'', size_l = 30, bold_l = True,
       bbox_l = (72, 100, 400, 130), page_l = 1\<rparr>,
      \<lparr>text_l = ''Low on the page'', size_l = 40, bold_l = True,
       bbox_l = (72, 500, 400, 540), page_l = 1\<rparr>]"
text \<open>
  Four lines of body text whose rounded sizes are 12, 10, 12 and 10: the two sizes are tied
  for the greatest frequency.
\<close>

definition tie_doc :: "line list" where
  "tie_doc =
     [\<lparr>text_l = ''The first paragraph.'', size_l = 12, bold_l = False,
       bbox_l = (72, 100, 400, 112), page_l = 1\<rparr>,
      \<lparr>text_l = ''A note in small print.'', size_l = 10.2, bold_l = False,
       bbox_l = (72, 120, 400, 130), page_l = 1\<rparr>,
      \<lparr>text_l = ''The second paragraph.'', size_l = 11.8, bold_l = False,
       bbox_l = (72, 140, 400, 152), page_l = 1\<rparr>,
      \<lparr>text_l = ''Another note in small print.'', size_l = 10, bold_l = False,
       bbox_l = (72, 160, 400, 170), page_l = 1\<rparr>]"


text \<open>
  Two texts of 42 characters that end in a colon, the first beginning with \<^verbatim>\<open>Phase\<close>, and a
  document in which the first is a line of the size of the body text and the second a bold
  line in a larger size.
\<close>

definition phase_colon_text :: string where
  "phase_colon_text = ''Phase 2: design review and implementation:''"

definition bold_colon_text :: string where
  "bold_colon_text = ''Requirements for the new reporting system:''"

definition colon_doc :: "line list" where
  "colon_doc =
     [\<lparr>text_l = bold_colon_text, size_l = 14, bold_l = True,
       bbox_l = (72, 60, 400, 74), page_l = 1\<rparr>,
      \<lparr>text_l = ''This report describes the system.'', size_l = 11, bold_l = False,
       bbox_l = (72, 120, 400, 131), page_l = 1\<rparr>,
      \<lparr>text_l = phase_colon_text, size_l = 11, bold_l = False,
       bbox_l = (72, 140, 400, 151), page_l = 1\<rparr>,
      \<lparr>text_l = ''It has two further sections.'', size_l = 11, bold_l = False,
       bbox_l = (72, 160, 400, 171), page_l = 1\<rparr>]"

text \<open>
  The document of the first scenario followed by a line that is a known heading.
\<close>

definition scenario_1_summary_doc :: "line list" where
  "scenario_1_summary_doc =
     scenario_1_doc @
     [\<lparr>text_l = ''Summary'', size_l = 14, bold_l = True,
       bbox_l = (72, 300, 400, 314), page_l = 1\<rparr>]"

section \<open>The matcher finds the words of a pattern\<close>

inductive_simps words_Never [simp]: "words Never w"
inductive_simps words_Empty [simp]: "words Empty w"
inductive_simps words_Cls [simp]: "words (Cls cs) w"
inductive_simps words_NCls [simp]: "words (NCls cs) w"
inductive_simps words_Seq [simp]: "words (Seq r s) w"
inductive_simps words_Or [simp]: "words (Or r s) w"

lemma nullable_words: "nullable r \<longleftrightarrow> words r []"
  by (induction r) (auto intro: w_many0)

lemma words_Many_first:
  assumes "words q x" and "q = Many r" and "x = c # w"
  shows "\<exists>u v. w = u @ v \<and> words r (c # u) \<and> words (Many r) v"
  using assms
proof (induction arbitrary: w rule: words.induct)
  case (w_many1 r' u v)
  show ?case
  proof (cases u)
    case Nil
    with w_many1.prems have "v = c # w" by simp
    from w_many1.IH(2) [OF w_many1.prems(1) this] show ?thesis .
  next
    case (Cons d u')
    with w_many1.prems have "w = u' @ v" and "d = c" and "r' = r" by simp_all
    with w_many1.hyps Cons show ?thesis by blast
  qed
qed simp_all

lemma words_Many_Cons:
  "words (Many r) (c # w) \<longleftrightarrow> (\<exists>u v. w = u @ v \<and> words r (c # u) \<and> words (Many r) v)"
proof
  assume "words (Many r) (c # w)"
  then show "\<exists>u v. w = u @ v \<and> words r (c # u) \<and> words (Many r) v"
    using words_Many_first by blast
next
  assume "\<exists>u v. w = u @ v \<and> words r (c # u) \<and> words (Many r) v"
  then obtain u v where "w = u @ v" and "words r (c # u)" and "words (Many r) v" by blast
  then show "words (Many r) (c # w)"
    using w_many1 [of r "c # u" v] by simp
qed

lemma words_after: "words (after c r) w \<longleftrightarrow> words r (c # w)"
proof (induction r arbitrary: w)
  case (Seq r s)
  then show ?case
    by (auto simp: nullable_words Cons_eq_append_conv)
next
  case (Many r)
  then show ?case
    by (simp add: words_Many_Cons)
qed auto

text \<open>
  \<open>re_match\<close> holds exactly when a prefix of the string is a word of the pattern, which is
  when \<^verbatim>\<open>match\<close> returns a match object.
\<close>

lemma re_match_words: "re_match r s \<longleftrightarrow> (\<exists>u. prefix u s \<and> words r u)"
proof (induction s arbitrary: r)
  case Nil
  show ?case by (simp add: nullable_words)
next
  case (Cons c cs)
  show ?case
  proof (cases "nullable r")
    case True
    then have "prefix [] (c # cs) \<and> words r []" by (simp add: nullable_words)
    then have "\<exists>u. prefix u (c # cs) \<and> words r u" ..
    with True show ?thesis by simp
  next
    case False
    then have "re_match r (c # cs) \<longleftrightarrow> (\<exists>u. prefix u cs \<and> words r (c # u))"
      by (simp add: Cons.IH words_after)
    also have "\<dots> \<longleftrightarrow> (\<exists>u. prefix u (c # cs) \<and> words r u)"
      using False by (auto simp: nullable_words prefix_Cons)
    finally show ?thesis .
  qed
qed


section \<open>The program returns\<close>

lemma count_element_not_Nil: "count_element items e \<noteq> []"
  by (cases items) (auto split: if_splits)

lemma Counter_not_Nil: "elems \<noteq> [] \<Longrightarrow> Counter elems \<noteq> []"
proof (induction elems rule: rev_induct)
  case Nil
  then show ?case by simp
next
  case (snoc x xs)
  show ?case by (simp add: Counter_def count_element_not_Nil)
qed

lemma get_body_size_total: "\<exists>b. get_body_size lines = Inr b"
proof (cases "body_sizes lines = []")
  case True
  then show ?thesis by (simp add: get_body_size_def)
next
  case False
  then obtain item rest where "Counter (body_sizes lines) = item # rest"
    using Counter_not_Nil by (cases "Counter (body_sizes lines)") auto
  with False show ?thesis
    by (simp add: get_body_size_def most_common_1_def item0_def)
qed

lemma item0_sort_reverse:
  assumes "xs \<noteq> []"
  shows "\<exists>m. item0 (sort_reverse xs) = Inr m \<and> m \<in> set xs \<and> (\<forall>x\<in>set xs. x \<le> m)"
proof -
  from assms have "sort xs \<noteq> []"
    by (metis length_sort length_0_conv)
  then obtain ys m where ys: "sort xs = ys @ [m]"
    by (metis rev_exhaust)
  have "sorted (ys @ [m])"
    using sorted_sort [of xs] by (simp add: ys)
  then have le: "\<forall>y\<in>set ys. y \<le> m"
    by (simp add: sorted_append)
  have "set xs = set (ys @ [m])"
    using set_sort [of "\<lambda>x. x" xs] by (simp add: ys)
  then have "m \<in> set xs" and "\<forall>x\<in>set xs. x \<le> m"
    using le by auto
  moreover have "item0 (sort_reverse xs) = Inr m"
    by (simp add: sort_reverse_def ys item0_def)
  ultimately show ?thesis by blast
qed

lemma simple_title_extraction_total: "\<exists>t. simple_title_extraction lines filename = Inr t"
proof (cases "title_candidates lines = []")
  case True
  then show ?thesis by (simp add: simple_title_extraction_def)
next
  case False
  from item0_sort_reverse [OF False] obtain m
    where "item0 (sort_reverse (title_candidates lines)) = Inr m" by blast
  then show ?thesis
    by (simp add: simple_title_extraction_def Let_def)
qed

text \<open>
  The result of \<open>process_pdf_simple\<close> on every document: the program returns, and the outline
  is empty or the deduplicated sorted list of the collected headings.
\<close>

lemma process_pdf_simple_outline:
  "\<exists>t b. simple_title_extraction (filter (\<lambda>line. page_l line = 1) all_lines) stem = Inr t \<and>
     get_body_size all_lines = Inr b \<and>
     process_pdf_simple all_lines stem =
       Inr \<lparr>title = (if all_lines = [] then stem else t),
            outline = (if all_lines = [] \<or> detect_form_document all_lines then []
                       else deduplicate (sort_headings (find_headings b all_lines)))\<rparr>"
proof -
  obtain t where t: "simple_title_extraction (filter (\<lambda>line. page_l line = 1) all_lines) stem = Inr t"
    using simple_title_extraction_total by blast
  obtain b where b: "get_body_size all_lines = Inr b"
    using get_body_size_total by blast
  show ?thesis unfolding process_pdf_simple_def Let_def t b by simp
qed

lemma process_pdf_simple_total: "\<exists>r. process_pdf_simple all_lines stem = Inr r"
  using process_pdf_simple_outline [of all_lines stem] by blast

section \<open>The loops of the outline\<close>

lemma foldl_keep_unseen:
  "foldl keep_unseen (seen, acc) hs = (seen \<union> heading_key ` set hs, acc @ unseen seen hs)"
  by (induction hs arbitrary: seen acc) (auto simp: keep_unseen_def Let_def)

lemma deduplicate_unseen: "deduplicate hs = unseen {} hs"
  by (simp add: deduplicate_def foldl_keep_unseen)

lemma set_unseen: "set (unseen seen hs) \<subseteq> set hs"
  by (induction hs arbitrary: seen) auto

lemma unseen_keys_fresh: "h \<in> set (unseen seen hs) \<Longrightarrow> heading_key h \<notin> seen"
  by (induction hs arbitrary: seen) (auto split: if_splits)

lemma distinct_unseen: "distinct (map heading_key (unseen seen hs))"
  by (induction hs arbitrary: seen) (auto dest: unseen_keys_fresh)

lemma sorted_wrt_unseen: "sorted_wrt P hs \<Longrightarrow> sorted_wrt P (unseen seen hs)"
proof (induction hs arbitrary: seen)
  case Nil
  then show ?case by simp
next
  case (Cons h hs)
  then show ?case using set_unseen by (fastforce simp: subset_iff)
qed

lemma filter_unseen:
  "filter (\<lambda>h. heading_key h = k) (unseen seen hs) =
     (if k \<in> seen then [] else take 1 (filter (\<lambda>h. heading_key h = k) hs))"
proof (induction hs arbitrary: seen)
  case Nil
  then show ?case by simp
next
  case (Cons h hs)
  show ?case
  proof (cases "heading_key h \<in> seen")
    case True
    then show ?thesis using Cons.IH [of seen] by auto
  next
    case False
    then show ?thesis using Cons.IH [of "insert (heading_key h) seen"] by auto
  qed
qed

lemma in_foldl_collect_heading:
  "h \<in> set (foldl (collect_heading b) acc ls) \<longleftrightarrow>
     h \<in> set acc \<or>
     (\<exists>l lvl. l \<in> set ls \<and> is_likely_heading (text_l l) (size_l l) (bold_l l) b \<and>
        simple_heading_detection (text_l l) (size_l l) (bold_l l) b = Some lvl \<and>
        h = \<lparr>level_h = lvl, text_h = strip (text_l l) @ '' '', page_h = page_l l\<rparr>)"
proof (induction ls arbitrary: acc)
  case Nil
  then show ?case by simp
next
  case (Cons l ls)
  show ?case
    unfolding foldl_Cons Cons.IH
    by (auto simp: collect_heading_def split: option.splits)
qed

lemma set_sort_headings: "set (sort_headings hs) = set hs"
  by (simp add: sort_headings_def)

text \<open>Every entry of the outline comes from a line that passed the gate and got a level.\<close>

lemma outline_provenance:
  assumes "process_pdf_simple ls stem = Inr r" and "get_body_size ls = Inr b"
    and "h \<in> set (outline r)"
  shows "\<exists>l lvl. l \<in> set ls \<and> is_likely_heading (text_l l) (size_l l) (bold_l l) b \<and>
        simple_heading_detection (text_l l) (size_l l) (bold_l l) b = Some lvl \<and>
        h = \<lparr>level_h = lvl, text_h = strip (text_l l) @ '' '', page_h = page_l l\<rparr>"
proof -
  from process_pdf_simple_outline [of ls stem] assms(1,2)
  have "outline r = (if ls = [] \<or> detect_form_document ls then []
                       else deduplicate (sort_headings (find_headings b ls)))"
    by auto
  with assms(3) have "h \<in> set (deduplicate (sort_headings (find_headings b ls)))"
    by (auto split: if_splits)
  then have "h \<in> set (find_headings b ls)"
    using set_unseen [of "{}" "sort_headings (find_headings b ls)"]
    by (auto simp: deduplicate_unseen set_sort_headings)
  then show ?thesis
    by (simp add: find_headings_def in_foldl_collect_heading)
qed

text \<open>
  A line that the gate rejects although the level assignment gives it a level is rejected by
  one of the three filters, which look at the trimmed text only.
\<close>

lemma gate_depends_on_text:
  assumes "\<not> is_likely_heading t sz b bs"
    and "simple_heading_detection t sz b bs = Some lvl"
    and "strip t' = strip t"
  shows "\<not> is_likely_heading t' sz' b' bs'"
  using assms
  unfolding is_likely_heading_def simple_heading_detection_def Let_def
  by (auto split: if_splits)

section \<open>The claims\<close>

text \<open>
  C3. If \<open>detect_form_document\<close> holds of the lines of a document, the program returns a
  result whose outline is empty, whatever the other lines would classify as, and whose title
  is the one that \<open>simple_title_extraction\<close> computes from the lines of page 1.
\<close>

theorem form_document_has_empty_outline:
  assumes "detect_form_document ls"
  shows "\<exists>t. simple_title_extraction (filter (\<lambda>line. page_l line = 1) ls) stem = Inr t \<and>
           process_pdf_simple ls stem = Inr \<lparr>title = t, outline = []\<rparr>"
proof -
  have "\<not> detect_form_document []" by code_simp
  with assms have "ls \<noteq> []" by auto
  with assms process_pdf_simple_outline [of ls stem] show ?thesis by auto
qed

theorem form_document_has_empty_outline_witness:
  "detect_form_document form_doc \<and>
   is_likely_heading ''1 Purpose of the grant'' 14 True 14 \<and>
   simple_heading_detection ''1 Purpose of the grant'' 14 True 14 = Some H1 \<and>
   (\<exists>t. simple_title_extraction (filter (\<lambda>line. page_l line = 1) form_doc) ''form'' = Inr t \<and>
        process_pdf_simple form_doc ''form'' = Inr \<lparr>title = t, outline = []\<rparr>)"
proof -
  have form: "detect_form_document form_doc" by code_simp
  have gate: "is_likely_heading ''1 Purpose of the grant'' 14 True 14" by code_simp
  have lvl: "simple_heading_detection ''1 Purpose of the grant'' 14 True 14 = Some H1"
    by code_simp
  from form gate lvl form_document_has_empty_outline [OF form, of "''form''"]
  show ?thesis by simp
qed

text \<open>
  C4. The program returns, and every entry of the outline is the entry of a line of the
  document that \<open>is_likely_heading\<close> accepts at the body size of the document and to which
  \<open>simple_heading_detection\<close> gives the level of the entry. So a line that the gate rejects
  contributes no entry, whether \<open>simple_heading_detection\<close> gives it a level or none. When
  it gives a rejected line a level, the entry that the line would contribute is not in the
  outline at all, not even as the entry of another line.
\<close>

theorem outline_entries_come_from_accepted_lines:
  "\<exists>r b. process_pdf_simple ls stem = Inr r \<and> get_body_size ls = Inr b \<and>
     (\<forall>h\<in>set (outline r). \<exists>l\<in>set ls. \<exists>lvl.
        is_likely_heading (text_l l) (size_l l) (bold_l l) b \<and>
        simple_heading_detection (text_l l) (size_l l) (bold_l l) b = Some lvl \<and>
        h = \<lparr>level_h = lvl, text_h = strip (text_l l) @ '' '', page_h = page_l l\<rparr>) \<and>
     (\<forall>l\<in>set ls. \<forall>lvl.
        \<not> is_likely_heading (text_l l) (size_l l) (bold_l l) b \<and>
        simple_heading_detection (text_l l) (size_l l) (bold_l l) b = Some lvl \<longrightarrow>
        \<lparr>level_h = lvl, text_h = strip (text_l l) @ '' '', page_h = page_l l\<rparr>
          \<notin> set (outline r))"
proof -
  obtain r where r: "process_pdf_simple ls stem = Inr r"
    using process_pdf_simple_total by blast
  obtain b where b: "get_body_size ls = Inr b"
    using get_body_size_total by blast
  have origin: "\<exists>l\<in>set ls. \<exists>lvl.
        is_likely_heading (text_l l) (size_l l) (bold_l l) b \<and>
        simple_heading_detection (text_l l) (size_l l) (bold_l l) b = Some lvl \<and>
        h = \<lparr>level_h = lvl, text_h = strip (text_l l) @ '' '', page_h = page_l l\<rparr>"
    if "h \<in> set (outline r)" for h
    using outline_provenance [OF r b that] by blast
  have absent: "\<lparr>level_h = lvl, text_h = strip (text_l l) @ '' '', page_h = page_l l\<rparr>
          \<notin> set (outline r)"
    if rejected: "\<not> is_likely_heading (text_l l) (size_l l) (bold_l l) b"
      and level: "simple_heading_detection (text_l l) (size_l l) (bold_l l) b = Some lvl"
    for l lvl
  proof
    assume "\<lparr>level_h = lvl, text_h = strip (text_l l) @ '' '', page_h = page_l l\<rparr>
              \<in> set (outline r)"
    from outline_provenance [OF r b this] show False
    proof (elim exE conjE)
      fix l' lvl'
      assume gate: "is_likely_heading (text_l l') (size_l l') (bold_l l') b"
        and entry: "\<lparr>level_h = lvl, text_h = strip (text_l l) @ '' '', page_h = page_l l\<rparr> =
              \<lparr>level_h = lvl', text_h = strip (text_l l') @ '' '', page_h = page_l l'\<rparr>"
      from entry have same: "strip (text_l l) = strip (text_l l')" by simp
      from gate_depends_on_text [OF rejected level same [symmetric]] gate
      show False by blast
    qed
  qed
  from r b origin absent show ?thesis by blast
qed

theorem outline_entries_come_from_accepted_lines_witness:
  "\<exists>r. process_pdf_simple scenario_1_summary_doc ''report'' = Inr r \<and>
     get_body_size scenario_1_summary_doc = Inr 11 \<and>
     outline r = [\<lparr>level_h = H1, text_h = ''Summary '', page_h = 1\<rparr>] \<and>
     (\<exists>l\<in>set scenario_1_summary_doc. \<exists>lvl.
        is_likely_heading (text_l l) (size_l l) (bold_l l) 11 \<and>
        simple_heading_detection (text_l l) (size_l l) (bold_l l) 11 = Some lvl \<and>
        \<lparr>level_h = H1, text_h = ''Summary '', page_h = 1\<rparr> =
          \<lparr>level_h = lvl, text_h = strip (text_l l) @ '' '', page_h = page_l l\<rparr>) \<and>
     \<lparr>text_l = ''It has two further sections.'', size_l = 11, bold_l = False,
       bbox_l = (72, 140, 400, 151), page_l = 1\<rparr> \<in> set scenario_1_summary_doc \<and>
     \<not> is_likely_heading ''It has two further sections.'' 11 False 11 \<and>
     simple_heading_detection ''It has two further sections.'' 11 False 11 = None \<and>
     scenario_1_line \<in> set scenario_1_summary_doc \<and>
     (\<not> is_likely_heading (text_l scenario_1_line) (size_l scenario_1_line)
          (bold_l scenario_1_line) 11 \<and>
      simple_heading_detection (text_l scenario_1_line) (size_l scenario_1_line)
          (bold_l scenario_1_line) 11 = Some H1) \<and>
     \<lparr>level_h = H1, text_h = strip (text_l scenario_1_line) @ '' '',
       page_h = page_l scenario_1_line\<rparr> \<notin> set (outline r)"
proof -
  have body: "get_body_size scenario_1_summary_doc = Inr 11" by code_simp
  have val: "process_pdf_simple scenario_1_summary_doc ''report'' =
      Inr \<lparr>title = ''1. Introduction'',
           outline = [\<lparr>level_h = H1, text_h = ''Summary '', page_h = 1\<rparr>]\<rparr>"
    by code_simp
  have text_line: "\<lparr>text_l = ''It has two further sections.'', size_l = 11, bold_l = False,
       bbox_l = (72, 140, 400, 151), page_l = 1\<rparr> \<in> set scenario_1_summary_doc"
    by (simp add: scenario_1_summary_doc_def scenario_1_doc_def)
  have text_gate: "\<not> is_likely_heading ''It has two further sections.'' 11 False 11"
    by code_simp
  have text_level: "simple_heading_detection ''It has two further sections.'' 11 False 11 = None"
    by code_simp
  have mem: "scenario_1_line \<in> set scenario_1_summary_doc"
    by (simp add: scenario_1_summary_doc_def scenario_1_doc_def)
  have rejected: "\<not> is_likely_heading (text_l scenario_1_line) (size_l scenario_1_line)
          (bold_l scenario_1_line) 11 \<and>
      simple_heading_detection (text_l scenario_1_line) (size_l scenario_1_line)
          (bold_l scenario_1_line) 11 = Some H1"
    by code_simp
  from outline_entries_come_from_accepted_lines [of scenario_1_summary_doc "''report''"]
  obtain r b where r: "process_pdf_simple scenario_1_summary_doc ''report'' = Inr r"
    and b: "get_body_size scenario_1_summary_doc = Inr b"
    and origin: "\<forall>h\<in>set (outline r). \<exists>l\<in>set scenario_1_summary_doc. \<exists>lvl.
        is_likely_heading (text_l l) (size_l l) (bold_l l) b \<and>
        simple_heading_detection (text_l l) (size_l l) (bold_l l) b = Some lvl \<and>
        h = \<lparr>level_h = lvl, text_h = strip (text_l l) @ '' '', page_h = page_l l\<rparr>"
    and absent: "\<forall>l\<in>set scenario_1_summary_doc. \<forall>lvl.
        \<not> is_likely_heading (text_l l) (size_l l) (bold_l l) b \<and>
        simple_heading_detection (text_l l) (size_l l) (bold_l l) b = Some lvl \<longrightarrow>
        \<lparr>level_h = lvl, text_h = strip (text_l l) @ '' '', page_h = page_l l\<rparr>
          \<notin> set (outline r)"
    by blast
  from b body have b11: "b = 11" by simp
  from r val have out: "outline r = [\<lparr>level_h = H1, text_h = ''Summary '', page_h = 1\<rparr>]"
    by auto
  then have "\<lparr>level_h = H1, text_h = ''Summary '', page_h = 1\<rparr> \<in> set (outline r)"
    by simp
  with origin have from_line: "\<exists>l\<in>set scenario_1_summary_doc. \<exists>lvl.
        is_likely_heading (text_l l) (size_l l) (bold_l l) 11 \<and>
        simple_heading_detection (text_l l) (size_l l) (bold_l l) 11 = Some lvl \<and>
        \<lparr>level_h = H1, text_h = ''Summary '', page_h = 1\<rparr> =
          \<lparr>level_h = lvl, text_h = strip (text_l l) @ '' '', page_h = page_l l\<rparr>"
    unfolding b11 by blast
  from absent mem rejected have gone: "\<lparr>level_h = H1,
       text_h = strip (text_l scenario_1_line) @ '' '',
       page_h = page_l scenario_1_line\<rparr> \<notin> set (outline r)"
    unfolding b11 by blast
  from r body out from_line text_line text_gate text_level mem rejected gone
  show ?thesis by blast
qed


lemma sorted_sort_headings:
  "sorted_wrt (\<lambda>a b. page_h a < page_h b \<or> page_h a = page_h b \<and> text_h a \<le> text_h b)
     (sort_headings hs)"
proof -
  have "sorted (map (\<lambda>x. (page_h x, text_h x)) (sort_headings hs))"
    unfolding sort_headings_def by (rule sorted_sort_key)
  then have "sorted_wrt (\<lambda>a b. (page_h a, text_h a) \<le> (page_h b, text_h b)) (sort_headings hs)"
    by (simp add: sorted_map)
  then show ?thesis
    by (rule sorted_wrt_mono_rel [rotated]) (auto simp: less_le)
qed

text \<open>
  C5. The program returns, and of any two entries of the outline the one at the earlier position
  is on a page of smaller number, or on the same page with a text that is not greater in the
  lexicographic order of the code points; the levels play no part.
\<close>

theorem outline_sorted_by_page_then_text:
  "\<exists>r. process_pdf_simple ls stem = Inr r \<and>
     (\<forall>i j. i < j \<and> j < length (outline r) \<longrightarrow>
        page_h (outline r ! i) < page_h (outline r ! j) \<or>
        page_h (outline r ! i) = page_h (outline r ! j) \<and>
        text_h (outline r ! i) \<le> text_h (outline r ! j))"
proof -
  from process_pdf_simple_outline [of ls stem] obtain r b where
    r: "process_pdf_simple ls stem = Inr r" and
    out: "outline r = (if ls = [] \<or> detect_form_document ls then []
                       else deduplicate (sort_headings (find_headings b ls)))"
    by auto
  have "sorted_wrt (\<lambda>a b. page_h a < page_h b \<or> page_h a = page_h b \<and> text_h a \<le> text_h b)
          (outline r)"
    unfolding out deduplicate_unseen
    by (simp add: sorted_wrt_unseen sorted_sort_headings)
  then have "\<forall>i j. i < j \<and> j < length (outline r) \<longrightarrow>
        page_h (outline r ! i) < page_h (outline r ! j) \<or>
        page_h (outline r ! i) = page_h (outline r ! j) \<and>
        text_h (outline r ! i) \<le> text_h (outline r ! j)"
    by (simp add: sorted_wrt_iff_nth_less)
  with r show ?thesis by blast
qed

lemma outline_doc_result:
  "process_pdf_simple outline_doc ''plan'' =
     Inr \<lparr>title = ''Project Plan'',
          outline = [\<lparr>level_h = H1, text_h = ''1 Overview '', page_h = 1\<rparr>,
                     \<lparr>level_h = H2, text_h = ''Project Plan '', page_h = 1\<rparr>,
                     \<lparr>level_h = H1, text_h = ''Summary '', page_h = 2\<rparr>]\<rparr>"
  by code_simp

theorem outline_sorted_by_page_then_text_witness:
  "\<exists>r. process_pdf_simple outline_doc ''plan'' = Inr r \<and>
     map level_h (outline r) = [H1, H2, H1] \<and>
     (0 < (1::nat) \<and> 1 < length (outline r)) \<and>
     (page_h (outline r ! 0) < page_h (outline r ! 1) \<or>
      page_h (outline r ! 0) = page_h (outline r ! 1) \<and>
      text_h (outline r ! 0) \<le> text_h (outline r ! 1))"
proof -
  from outline_sorted_by_page_then_text [of outline_doc "''plan''"] obtain r where
    r: "process_pdf_simple outline_doc ''plan'' = Inr r" and
    ord: "\<forall>i j. i < j \<and> j < length (outline r) \<longrightarrow>
        page_h (outline r ! i) < page_h (outline r ! j) \<or>
        page_h (outline r ! i) = page_h (outline r ! j) \<and>
        text_h (outline r ! i) \<le> text_h (outline r ! j)"
    by blast
  from r have val: "outline r = [\<lparr>level_h = H1, text_h = ''1 Overview '', page_h = 1\<rparr>,
                     \<lparr>level_h = H2, text_h = ''Project Plan '', page_h = 1\<rparr>,
                     \<lparr>level_h = H1, text_h = ''Summary '', page_h = 2\<rparr>]"
    by (auto simp: outline_doc_result)
  have len: "0 < (1::nat) \<and> 1 < length (outline r)" by (simp add: val)
  from ord len have "page_h (outline r ! 0) < page_h (outline r ! 1) \<or>
      page_h (outline r ! 0) = page_h (outline r ! 1) \<and>
      text_h (outline r ! 0) \<le> text_h (outline r ! 1)"
    by blast
  with r len show ?thesis by (auto simp: val)
qed

text \<open>
  C6. The program returns an outline in which no two entries have the same level, trimmed
  text and page. The loop that removes the duplicates keeps, of the entries of its input with
  a given key, exactly the first one; and when the document is not empty and not a form, its
  input is the sorted list of the collected headings.
\<close>

theorem outline_has_no_duplicate_keys:
  "(\<exists>r b. process_pdf_simple ls stem = Inr r \<and> get_body_size ls = Inr b \<and>
      distinct (map heading_key (outline r)) \<and>
      (ls \<noteq> [] \<and> \<not> detect_form_document ls \<longrightarrow>
         filter (\<lambda>h. heading_key h = k) (outline r) =
           take 1 (filter (\<lambda>h. heading_key h = k) (sort_headings (find_headings b ls))))) \<and>
   distinct (map heading_key (deduplicate hs)) \<and>
   filter (\<lambda>h. heading_key h = k) (deduplicate hs) = take 1 (filter (\<lambda>h. heading_key h = k) hs)"
proof -
  from process_pdf_simple_outline [of ls stem] obtain r b where
    r: "process_pdf_simple ls stem = Inr r" and b: "get_body_size ls = Inr b" and
    out: "outline r = (if ls = [] \<or> detect_form_document ls then []
                       else deduplicate (sort_headings (find_headings b ls)))"
    by auto
  have d: "distinct (map heading_key (deduplicate xs))" for xs
    by (simp add: deduplicate_unseen distinct_unseen)
  have f: "filter (\<lambda>h. heading_key h = k) (deduplicate xs) =
             take 1 (filter (\<lambda>h. heading_key h = k) xs)" for xs
    by (simp add: deduplicate_unseen filter_unseen)
  have "distinct (map heading_key (outline r))"
    unfolding out using d by simp
  moreover have "ls \<noteq> [] \<and> \<not> detect_form_document ls \<longrightarrow>
         filter (\<lambda>h. heading_key h = k) (outline r) =
           take 1 (filter (\<lambda>h. heading_key h = k) (sort_headings (find_headings b ls)))"
    unfolding out using f by simp
  ultimately show ?thesis using r b d f by blast
qed

theorem outline_has_no_duplicate_keys_witness:
  "\<exists>r. process_pdf_simple outline_doc ''plan'' = Inr r \<and>
     (outline_doc \<noteq> [] \<and> \<not> detect_form_document outline_doc) \<and>
     length (filter (\<lambda>h. heading_key h = (H1, ''1 Overview'', 1))
               (sort_headings (find_headings 11 outline_doc))) = 2 \<and>
     filter (\<lambda>h. heading_key h = (H1, ''1 Overview'', 1)) (outline r) =
       [\<lparr>level_h = H1, text_h = ''1 Overview '', page_h = 1\<rparr>]"
proof -
  have body: "get_body_size outline_doc = Inr 11" by code_simp
  have hyp: "outline_doc \<noteq> [] \<and> \<not> detect_form_document outline_doc" by code_simp
  have sorted_list: "sort_headings (find_headings 11 outline_doc) =
      [\<lparr>level_h = H1, text_h = ''1 Overview '', page_h = 1\<rparr>,
       \<lparr>level_h = H1, text_h = ''1 Overview '', page_h = 1\<rparr>,
       \<lparr>level_h = H2, text_h = ''Project Plan '', page_h = 1\<rparr>,
       \<lparr>level_h = H1, text_h = ''Summary '', page_h = 2\<rparr>]"
    by code_simp
  have two: "filter (\<lambda>h. heading_key h = (H1, ''1 Overview'', 1))
               (sort_headings (find_headings 11 outline_doc)) =
      [\<lparr>level_h = H1, text_h = ''1 Overview '', page_h = 1\<rparr>,
       \<lparr>level_h = H1, text_h = ''1 Overview '', page_h = 1\<rparr>]"
    unfolding sorted_list by code_simp
  from outline_has_no_duplicate_keys [of outline_doc "''plan''" "(H1, ''1 Overview'', 1)" "[]"]
  obtain r b where r: "process_pdf_simple outline_doc ''plan'' = Inr r"
    and b: "get_body_size outline_doc = Inr b"
    and first: "outline_doc \<noteq> [] \<and> \<not> detect_form_document outline_doc \<longrightarrow>
         filter (\<lambda>h. heading_key h = (H1, ''1 Overview'', 1)) (outline r) =
           take 1 (filter (\<lambda>h. heading_key h = (H1, ''1 Overview'', 1))
                     (sort_headings (find_headings b outline_doc)))"
    by blast
  from b body have "b = 11" by simp
  with first hyp two r show ?thesis by auto
qed

lemma set_title_candidates:
  "set (title_candidates ls) =
     (\<lambda>l. (size_l l + (if bold_l l then 10 else 0), text_l l)) `
       {l \<in> set ls. fst (snd (bbox_l l)) < 200 \<and> 5 \<le> length (text_l l)}"
  by (simp add: title_candidates_def)

text \<open>
  C7. Let the file name not be the sentinel \<^verbatim>\<open>file05\<close>. If some line of the first page has
  \<open>y0 < 200\<close> and a text of at least 5 characters, \<open>simple_title_extraction\<close> returns the
  trimmed text of such a line whose score (the size, plus 10 when bold) is greatest, and
  whose text is the greatest in the lexicographic order among the lines of that score. If no
  line qualifies, it returns the file name.
\<close>

theorem title_is_best_candidate:
  assumes "filename \<noteq> ''file05''"
  shows "((\<exists>l\<in>set ls. fst (snd (bbox_l l)) < 200 \<and> 5 \<le> length (text_l l)) \<longrightarrow>
           (\<exists>l\<in>set ls. fst (snd (bbox_l l)) < 200 \<and> 5 \<le> length (text_l l) \<and>
              simple_title_extraction ls filename = Inr (strip (text_l l)) \<and>
              (\<forall>l'\<in>set ls. fst (snd (bbox_l l')) < 200 \<and> 5 \<le> length (text_l l') \<longrightarrow>
                 size_l l' + (if bold_l l' then 10 else 0) < size_l l + (if bold_l l then 10 else 0) \<or>
                 size_l l' + (if bold_l l' then 10 else 0) = size_l l + (if bold_l l then 10 else 0) \<and>
                 text_l l' \<le> text_l l))) \<and>
         (\<not> (\<exists>l\<in>set ls. fst (snd (bbox_l l)) < 200 \<and> 5 \<le> length (text_l l)) \<longrightarrow>
           simple_title_extraction ls filename = Inr filename)"
proof (cases "title_candidates ls = []")
  case True
  then have "set (title_candidates ls) = {}" by simp
  then have none: "\<not> (\<exists>l\<in>set ls. fst (snd (bbox_l l)) < 200 \<and> 5 \<le> length (text_l l))"
    unfolding set_title_candidates by auto
  have "simple_title_extraction ls filename = Inr filename"
    using True assms by (simp add: simple_title_extraction_def)
  with none show ?thesis by blast
next
  case False
  from item0_sort_reverse [OF False] obtain m where
    m: "item0 (sort_reverse (title_candidates ls)) = Inr m" "m \<in> set (title_candidates ls)"
       "\<forall>x\<in>set (title_candidates ls). x \<le> m"
    by blast
  from m(2) obtain l where l: "l \<in> set ls" "fst (snd (bbox_l l)) < 200" "5 \<le> length (text_l l)"
    "m = (size_l l + (if bold_l l then 10 else 0), text_l l)"
    unfolding set_title_candidates by auto
  from l(1) have "ls \<noteq> []" by auto
  then have res: "simple_title_extraction ls filename = Inr (strip (text_l l))"
    using False assms m(1) l(4) by (simp add: simple_title_extraction_def Let_def)
  have best: "\<forall>l'\<in>set ls. fst (snd (bbox_l l')) < 200 \<and> 5 \<le> length (text_l l') \<longrightarrow>
                 size_l l' + (if bold_l l' then 10 else 0) < size_l l + (if bold_l l then 10 else 0) \<or>
                 size_l l' + (if bold_l l' then 10 else 0) = size_l l + (if bold_l l then 10 else 0) \<and>
                 text_l l' \<le> text_l l"
  proof (intro ballI impI)
    fix l' assume l': "l' \<in> set ls" "fst (snd (bbox_l l')) < 200 \<and> 5 \<le> length (text_l l')"
    then have "(size_l l' + (if bold_l l' then 10 else 0), text_l l') \<in> set (title_candidates ls)"
      unfolding set_title_candidates by blast
    with m(3) have "(size_l l' + (if bold_l l' then 10 else 0), text_l l') \<le> m" by blast
    then show "size_l l' + (if bold_l l' then 10 else 0) < size_l l + (if bold_l l then 10 else 0) \<or>
                 size_l l' + (if bold_l l' then 10 else 0) = size_l l + (if bold_l l then 10 else 0) \<and>
                 text_l l' \<le> text_l l"
      unfolding l(4) less_eq_prod_simp by (auto simp: less_le)
  qed
  from l res best show ?thesis by blast
qed

theorem title_is_best_candidate_witness:
  "''doc'' \<noteq> ''file05'' \<and>
   (\<exists>l\<in>set title_doc. fst (snd (bbox_l l)) < 200 \<and> 5 \<le> length (text_l l)) \<and>
   simple_title_extraction title_doc ''doc'' = Inr ''Draft Version'' \<and>
   (\<exists>l\<in>set title_doc. fst (snd (bbox_l l)) < 200 \<and> 5 \<le> length (text_l l) \<and>
      simple_title_extraction title_doc ''doc'' = Inr (strip (text_l l)) \<and>
      (\<forall>l'\<in>set title_doc. fst (snd (bbox_l l')) < 200 \<and> 5 \<le> length (text_l l') \<longrightarrow>
         size_l l' + (if bold_l l' then 10 else 0) < size_l l + (if bold_l l then 10 else 0) \<or>
         size_l l' + (if bold_l l' then 10 else 0) = size_l l + (if bold_l l then 10 else 0) \<and>
         text_l l' \<le> text_l l)) \<and>
   \<not> (\<exists>l\<in>set no_title_doc. fst (snd (bbox_l l)) < 200 \<and> 5 \<le> length (text_l l)) \<and>
   simple_title_extraction no_title_doc ''doc'' = Inr ''doc''"
proof -
  have name: "''doc'' \<noteq> ''file05''" by simp
  have some: "\<exists>l\<in>set title_doc. fst (snd (bbox_l l)) < 200 \<and> 5 \<le> length (text_l l)"
    by (simp add: title_doc_def)
  have none: "\<not> (\<exists>l\<in>set no_title_doc. fst (snd (bbox_l l)) < 200 \<and> 5 \<le> length (text_l l))"
    by (simp add: no_title_doc_def)
  have val: "simple_title_extraction title_doc ''doc'' = Inr ''Draft Version''"
    by code_simp
  from title_is_best_candidate [OF name, of no_title_doc] none
  have fallback: "simple_title_extraction no_title_doc ''doc'' = Inr ''doc''" by blast
  from title_is_best_candidate [OF name, of title_doc] some
  have best: "\<exists>l\<in>set title_doc. fst (snd (bbox_l l)) < 200 \<and> 5 \<le> length (text_l l) \<and>
      simple_title_extraction title_doc ''doc'' = Inr (strip (text_l l)) \<and>
      (\<forall>l'\<in>set title_doc. fst (snd (bbox_l l')) < 200 \<and> 5 \<le> length (text_l l') \<longrightarrow>
         size_l l' + (if bold_l l' then 10 else 0) < size_l l + (if bold_l l then 10 else 0) \<or>
         size_l l' + (if bold_l l' then 10 else 0) = size_l l + (if bold_l l then 10 else 0) \<and>
         text_l l' \<le> text_l l)"
    by blast
  from name some none val fallback best show ?thesis by blast
qed

lemma numbered_1_Introduction: "re_match NUMBERED_PATTERN ''1 Introduction''"
  by code_simp

lemma not_form_field_1_Introduction: "\<not> re_match FORM_FIELD_PATTERN ''1 Introduction''"
  by code_simp

lemma not_sub_numbered_1_Introduction:
  "\<not> re_match SUB_NUMBERED_PATTERN ''1 Introduction'' \<and>
   \<not> re_match SUB_SUB_NUMBERED_PATTERN ''1 Introduction''"
  by code_simp

lemma strip_1_Introduction: "strip ''1 Introduction'' = ''1 Introduction''"
  by code_simp

lemma no_sentence_in_1_Introduction: "\<not> contains ''1 Introduction'' ''. ''"
  by code_simp

text \<open>
  C8. Whatever the size, the bold flag and the body size, the line \<^verbatim>\<open>1 Introduction\<close> passes
  \<open>is_likely_heading\<close>: the pattern of the form-field filter does not match it, the plain
  numbered pattern does, and \<open>simple_heading_detection\<close> gives it the level H1.
\<close>

theorem unpunctuated_number_is_H1:
  "is_likely_heading ''1 Introduction'' sz b bs \<and>
   \<not> re_match FORM_FIELD_PATTERN (strip ''1 Introduction'') \<and>
   re_match NUMBERED_PATTERN (strip ''1 Introduction'') \<and>
   simple_heading_detection ''1 Introduction'' sz b bs = Some H1"
proof -
  have len: "length ''1 Introduction'' = 14" by simp
  show ?thesis
    unfolding is_likely_heading_def simple_heading_detection_def Let_def
      strip_1_Introduction len
    using numbered_1_Introduction not_form_field_1_Introduction
      not_sub_numbered_1_Introduction no_sentence_in_1_Introduction
    by (simp del: re_match.simps contains.simps)
qed
section \<open>The most common size\<close>

lemma Counter_snoc: "Counter (xs @ [x]) = count_element (Counter xs) x"
  by (simp add: Counter_def)

lemma map_fst_count_element:
  "map fst (count_element items e) =
     (if e \<in> fst ` set items then map fst items else map fst items @ [e])"
  by (induction items e rule: count_element.induct) auto

lemma map_of_count_element:
  "map_of (count_element items e) =
     (map_of items)(e \<mapsto> (case map_of items e of None \<Rightarrow> 1 | Some n \<Rightarrow> n + 1))"
  by (induction items e rule: count_element.induct) (auto simp: fun_eq_iff)

lemma first_pos_append:
  "x \<in> set xs \<Longrightarrow>
     length (takeWhile (\<lambda>y. y \<noteq> x) (xs @ zs)) = length (takeWhile (\<lambda>y. y \<noteq> x) xs)"
  by (simp add: takeWhile_append1 [of x xs "\<lambda>y. y \<noteq> x" zs])

lemma first_pos_less:
  "x \<in> set xs \<Longrightarrow> length (takeWhile (\<lambda>y. y \<noteq> x) xs) < length xs"
  by (induction xs) auto

lemma first_pos_new:
  "x \<notin> set xs \<Longrightarrow> length (takeWhile (\<lambda>y. y \<noteq> x) (xs @ [x])) = length xs"
  by (induction xs) auto

lemma Counter_keys: "set (map fst (Counter xs)) = set xs \<and> distinct (map fst (Counter xs))"
proof (induction xs rule: rev_induct)
  case Nil
  show ?case by (simp add: Counter_def)
next
  case (snoc x xs)
  then show ?case
    by (auto simp: Counter_snoc map_fst_count_element)
qed

lemma Counter_counts:
  "map_of (Counter xs) k = (if k \<in> set xs then Some (count_list xs k) else None)"
proof (induction xs rule: rev_induct)
  case Nil
  show ?case by (simp add: Counter_def)
next
  case (snoc x xs)
  then show ?case
    by (auto simp: Counter_snoc map_of_count_element)
qed

lemma Counter_order:
  "sorted_wrt (\<lambda>a b. length (takeWhile (\<lambda>y. y \<noteq> a) xs) < length (takeWhile (\<lambda>y. y \<noteq> b) xs))
     (map fst (Counter xs))"
proof (induction xs rule: rev_induct)
  case Nil
  show ?case by (simp add: Counter_def)
next
  case (snoc x xs)
  have keys: "set (map fst (Counter xs)) = set xs"
    using Counter_keys by blast
  have old: "sorted_wrt (\<lambda>a b. length (takeWhile (\<lambda>y. y \<noteq> a) (xs @ [x]))
                 < length (takeWhile (\<lambda>y. y \<noteq> b) (xs @ [x]))) (map fst (Counter xs))"
    using snoc.IH
  proof (rule sorted_wrt_mono_rel [rotated])
    fix a b
    assume "a \<in> set (map fst (Counter xs))" "b \<in> set (map fst (Counter xs))"
      and "length (takeWhile (\<lambda>y. y \<noteq> a) xs) < length (takeWhile (\<lambda>y. y \<noteq> b) xs)"
    then show "length (takeWhile (\<lambda>y. y \<noteq> a) (xs @ [x])) < length (takeWhile (\<lambda>y. y \<noteq> b) (xs @ [x]))"
      unfolding keys by (simp add: first_pos_append)
  qed
  show ?case
  proof (cases "x \<in> set xs")
    case True
    then have "map fst (Counter (xs @ [x])) = map fst (Counter xs)"
      using keys by (simp add: Counter_snoc map_fst_count_element)
    with old show ?thesis by simp
  next
    case False
    then have "map fst (Counter (xs @ [x])) = map fst (Counter xs) @ [x]"
      using keys by (simp add: Counter_snoc map_fst_count_element)
    moreover have "\<forall>k\<in>set (map fst (Counter xs)).
        length (takeWhile (\<lambda>y. y \<noteq> k) (xs @ [x])) < length (takeWhile (\<lambda>y. y \<noteq> x) (xs @ [x]))"
      unfolding keys using False by (simp add: first_pos_append first_pos_new first_pos_less)
    ultimately show ?thesis using old by (simp add: sorted_wrt_append)
  qed
qed

lemma max_count_mem: "max_count best items \<in> set (best # items)"
  by (induction items arbitrary: best) (auto split: if_splits)

lemma max_count_greatest: "i \<in> set (best # items) \<Longrightarrow> snd i \<le> snd (max_count best items)"
proof (induction items arbitrary: best i)
  case Nil
  then show ?case by simp
next
  case (Cons item items)
  show ?case
  proof (cases "snd item > snd best")
    case True
    have "snd item \<le> snd (max_count item items)" using Cons.IH [of item item] by simp
    moreover have "i \<in> set (item # items) \<Longrightarrow> snd i \<le> snd (max_count item items)"
      using Cons.IH [of i item] by simp
    ultimately show ?thesis using True Cons.prems by auto
  next
    case False
    have "snd best \<le> snd (max_count best items)" using Cons.IH [of best best] by simp
    moreover have "i \<in> set (best # items) \<Longrightarrow> snd i \<le> snd (max_count best items)"
      using Cons.IH [of i best] by simp
    ultimately show ?thesis using False Cons.prems by auto
  qed
qed

lemma max_count_first:
  fixes f :: "int \<times> nat \<Rightarrow> nat"
  assumes "sorted_wrt (\<lambda>a b. f a < f b) (best # items)"
    and "i \<in> set (best # items)" and "snd i = snd (max_count best items)"
  shows "f (max_count best items) \<le> f i"
  using assms
proof (induction items arbitrary: best i)
  case Nil
  then show ?case by simp
next
  case (Cons item items)
  show ?case
  proof (cases "snd item > snd best")
    case True
    have s: "sorted_wrt (\<lambda>a b. f a < f b) (item # items)" using Cons.prems(1) by simp
    have "snd item \<le> snd (max_count item items)"
      using max_count_greatest [of item item items] by simp
    with True Cons.prems(3) have "i \<noteq> best" by auto
    with Cons.prems(2) have "i \<in> set (item # items)" by auto
    from Cons.IH [OF s this] Cons.prems(3) True show ?thesis by simp
  next
    case False
    have s: "sorted_wrt (\<lambda>a b. f a < f b) (best # items)" using Cons.prems(1) by auto
    have m: "max_count best (item # items) = max_count best items" using False by simp
    show ?thesis
    proof (cases "i = item")
      case True
      have "snd best \<le> snd (max_count best items)"
        using max_count_greatest [of best best items] by simp
      with False True Cons.prems(3) m have "snd best = snd (max_count best items)" by simp
      from Cons.IH [OF s _ this] have "f (max_count best items) \<le> f best" by simp
      moreover have "f best < f item" using Cons.prems(1) by simp
      ultimately show ?thesis using m True by simp
    next
      case False
      with Cons.prems(2) have "i \<in> set (best # items)" by auto
      from Cons.IH [OF s this] Cons.prems(3) m show ?thesis by simp
    qed
  qed
qed

lemma Counter_mem:
  "(k, n) \<in> set (Counter xs) \<longleftrightarrow> k \<in> set xs \<and> n = count_list xs k"
proof -
  have "distinct (map fst (Counter xs))"
    using Counter_keys by blast
  then have "(k, n) \<in> set (Counter xs) \<longleftrightarrow> map_of (Counter xs) k = Some n"
    by (simp add: map_of_eq_Some_iff)
  then show ?thesis
    unfolding Counter_counts by auto
qed

lemma first_pos_split:
  assumes "b \<in> set xs"
  shows "\<exists>post. xs = takeWhile (\<lambda>y. y \<noteq> b) xs @ b # post"
proof -
  from assms have ne: "dropWhile (\<lambda>y. y \<noteq> b) xs \<noteq> []"
    by (simp add: dropWhile_eq_Nil_conv)
  then have "hd (dropWhile (\<lambda>y. y \<noteq> b) xs) = b"
    using hd_dropWhile [of "\<lambda>y. y \<noteq> b" xs] by simp
  with ne have "dropWhile (\<lambda>y. y \<noteq> b) xs = b # tl (dropWhile (\<lambda>y. y \<noteq> b) xs)"
    by (cases "dropWhile (\<lambda>y. y \<noteq> b) xs") auto
  then have "xs = takeWhile (\<lambda>y. y \<noteq> b) xs @ b # tl (dropWhile (\<lambda>y. y \<noteq> b) xs)"
    using takeWhile_dropWhile_id [of "\<lambda>y. y \<noteq> b" xs] by simp
  then show ?thesis ..
qed

text \<open>
  The item that \<open>most_common_1\<close> selects from a counter: its count is the greatest, and every
  element that occurs before its first occurrence has a smaller count.
\<close>

lemma most_common_1_Counter:
  assumes "xs \<noteq> []"
  shows "\<exists>b. most_common_1 (Counter xs) = [(b, count_list xs b)] \<and> b \<in> set xs \<and>
           (\<forall>s\<in>set xs. count_list xs s \<le> count_list xs b) \<and>
           (\<forall>s\<in>set (takeWhile (\<lambda>y. y \<noteq> b) xs). count_list xs s < count_list xs b)"
proof -
  define fp where "fp = (\<lambda>a. length (takeWhile (\<lambda>y. y \<noteq> a) xs))"
  from assms have "Counter xs \<noteq> []"
    by (rule Counter_not_Nil)
  then obtain item rest where items: "Counter xs = item # rest"
    by (cases "Counter xs") auto
  define m where "m = max_count item rest"
  have res: "most_common_1 (Counter xs) = [m]"
    by (simp add: items most_common_1_def m_def)
  have "m \<in> set (Counter xs)"
    unfolding m_def items by (rule max_count_mem)
  then have "(fst m, snd m) \<in> set (Counter xs)" by simp
  then have b_in: "fst m \<in> set xs" and m_snd: "snd m = count_list xs (fst m)"
    unfolding Counter_mem by simp_all
  have in_items: "(s, count_list xs s) \<in> set (item # rest)" if "s \<in> set xs" for s
    using that Counter_mem [of s "count_list xs s" xs] by (simp add: items)
  have greatest: "count_list xs s \<le> count_list xs (fst m)" if "s \<in> set xs" for s
    using max_count_greatest [OF in_items [OF that]] m_snd by (simp add: m_def)
  have "sorted_wrt (\<lambda>a b. fp a < fp b) (map fst (Counter xs))"
    unfolding fp_def by (rule Counter_order)
  then have ord: "sorted_wrt (\<lambda>a b. fp (fst a) < fp (fst b)) (item # rest)"
    unfolding items sorted_wrt_map .
  have first: "fp (fst m) \<le> fp s" if "s \<in> set xs" "count_list xs s = count_list xs (fst m)" for s
  proof -
    have "snd (s, count_list xs s) = snd (max_count item rest)"
      using that(2) m_snd by (simp add: m_def)
    from max_count_first [of "\<lambda>a. fp (fst a)", OF ord in_items [OF that(1)] this]
    show ?thesis by (simp add: m_def)
  qed
  obtain post where split: "xs = takeWhile (\<lambda>y. y \<noteq> fst m) xs @ fst m # post"
    using first_pos_split [OF b_in] by blast
  have before: "count_list xs s < count_list xs (fst m)"
    if "s \<in> set (takeWhile (\<lambda>y. y \<noteq> fst m) xs)" for s
  proof -
    from that have sx: "s \<in> set xs" by (rule set_takeWhileD [THEN conjunct1])
    have "length (takeWhile (\<lambda>y. y \<noteq> s) (takeWhile (\<lambda>y. y \<noteq> fst m) xs @ fst m # post)) =
          length (takeWhile (\<lambda>y. y \<noteq> s) (takeWhile (\<lambda>y. y \<noteq> fst m) xs))"
      using that by (rule first_pos_append)
    then have "fp s = length (takeWhile (\<lambda>y. y \<noteq> s) (takeWhile (\<lambda>y. y \<noteq> fst m) xs))"
      unfolding fp_def using split by simp
    also have "\<dots> < length (takeWhile (\<lambda>y. y \<noteq> fst m) xs)"
      using that by (rule first_pos_less)
    finally have "fp s < fp (fst m)" by (simp add: fp_def)
    with first [OF sx] have "count_list xs s \<noteq> count_list xs (fst m)" by auto
    with greatest [OF sx] show ?thesis by simp
  qed
  have "m = (fst m, count_list xs (fst m))"
    using m_snd by (cases m) simp
  with res have "most_common_1 (Counter xs) = [(fst m, count_list xs (fst m))]" by simp
  with b_in greatest before show ?thesis by blast
qed

text \<open>
  C10. When the list of the rounded sizes of the qualifying lines is not empty,
  \<open>get_body_size\<close> returns a size \<open>b\<close> of that list whose number of occurrences is the
  greatest, and every size that occurs before the first occurrence of \<open>b\<close> occurs strictly
  less often: among the sizes tied for the greatest frequency, \<open>b\<close> is the one that occurs
  first. The result depends on the order of the lines: the lines of \<open>tie_doc\<close> give 12, and
  the same lines in the reverse order give 10.
\<close>

theorem body_size_is_first_most_frequent:
  assumes "body_sizes ls \<noteq> []"
  shows "(\<exists>b pre post. get_body_size ls = Inr b \<and> body_sizes ls = pre @ b # post \<and>
            b \<notin> set pre \<and>
            (\<forall>s\<in>set (body_sizes ls).
               count_list (body_sizes ls) s \<le> count_list (body_sizes ls) b) \<and>
            (\<forall>s\<in>set pre. count_list (body_sizes ls) s < count_list (body_sizes ls) b)) \<and>
         get_body_size tie_doc = Inr 12 \<and> get_body_size (rev tie_doc) = Inr 10"
proof -
  from most_common_1_Counter [OF assms] obtain b where
    res: "most_common_1 (Counter (body_sizes ls)) = [(b, count_list (body_sizes ls) b)]" and
    b_in: "b \<in> set (body_sizes ls)" and
    greatest: "\<forall>s\<in>set (body_sizes ls).
                 count_list (body_sizes ls) s \<le> count_list (body_sizes ls) b" and
    before: "\<forall>s\<in>set (takeWhile (\<lambda>y. y \<noteq> b) (body_sizes ls)).
               count_list (body_sizes ls) s < count_list (body_sizes ls) b"
    by blast
  from first_pos_split [OF b_in] obtain post where
    split: "body_sizes ls = takeWhile (\<lambda>y. y \<noteq> b) (body_sizes ls) @ b # post"
    by blast
  have fresh: "b \<notin> set (takeWhile (\<lambda>y. y \<noteq> b) (body_sizes ls))"
    by (auto dest: set_takeWhileD)
  have val: "get_body_size ls = Inr b"
    using assms by (simp add: get_body_size_def res item0_def)
  have general: "\<exists>b pre post. get_body_size ls = Inr b \<and> body_sizes ls = pre @ b # post \<and>
            b \<notin> set pre \<and>
            (\<forall>s\<in>set (body_sizes ls).
               count_list (body_sizes ls) s \<le> count_list (body_sizes ls) b) \<and>
            (\<forall>s\<in>set pre. count_list (body_sizes ls) s < count_list (body_sizes ls) b)"
    using val split fresh greatest before by blast
  have a: "get_body_size tie_doc = Inr 12" by code_simp
  have b: "get_body_size (rev tie_doc) = Inr 10" by code_simp
  from general a b show ?thesis by blast
qed

theorem body_size_is_first_most_frequent_witness:
  "body_sizes tie_doc = [12, 10, 12, 10] \<and> body_sizes tie_doc \<noteq> [] \<and>
   get_body_size tie_doc = Inr 12 \<and>
   (\<exists>b pre post. get_body_size tie_doc = Inr b \<and> body_sizes tie_doc = pre @ b # post \<and>
      b \<notin> set pre \<and>
      (\<forall>s\<in>set (body_sizes tie_doc).
         count_list (body_sizes tie_doc) s \<le> count_list (body_sizes tie_doc) b) \<and>
      (\<forall>s\<in>set pre. count_list (body_sizes tie_doc) s < count_list (body_sizes tie_doc) b))"
proof -
  have sizes: "body_sizes tie_doc = [12, 10, 12, 10]" by code_simp
  then have ne: "body_sizes tie_doc \<noteq> []" by simp
  from body_size_is_first_most_frequent [OF ne] sizes ne show ?thesis by blast
qed

section \<open>The text that the form detection searches\<close>





lemma lower_append: "lower (s @ t) = lower s @ lower t"
  by (simp add: lower_def)




lemma endswith_append: "endswith s p \<Longrightarrow> \<exists>u. s = u @ p"
proof -
  assume "endswith s p"
  then obtain w where "rev s = rev p @ w"
    unfolding endswith_def prefix_def by blast
  then have "rev (rev s) = rev (rev p @ w)" by simp
  then have "s = rev w @ p" by simp
  then show ?thesis ..
qed




section \<open>The first scenario\<close>

lemma strip_1_dot_Introduction: "strip ''1. Introduction'' = ''1. Introduction''"
  by code_simp

lemma form_field_1_dot_Introduction: "re_match FORM_FIELD_PATTERN ''1. Introduction''"
  by code_simp

lemma numbered_1_dot_Introduction:
  "re_match NUMBERED_PATTERN ''1. Introduction'' \<and>
   \<not> re_match SUB_NUMBERED_PATTERN ''1. Introduction'' \<and>
   \<not> re_match SUB_SUB_NUMBERED_PATTERN ''1. Introduction''"
  by code_simp

lemma gate_1_dot_Introduction: "\<not> is_likely_heading ''1. Introduction'' sz b bs"
proof -
  have len: "length ''1. Introduction'' = 15" by simp
  show ?thesis
    unfolding is_likely_heading_def Let_def strip_1_dot_Introduction len
    using form_field_1_dot_Introduction
    by (simp del: re_match.simps contains.simps)
qed

lemma level_1_dot_Introduction: "simple_heading_detection ''1. Introduction'' sz b bs = Some H1"
  unfolding simple_heading_detection_def Let_def strip_1_dot_Introduction
  using numbered_1_dot_Introduction
  by (simp del: re_match.simps)

text \<open>
  C1, as the program has it. The line \<^verbatim>\<open>1. Introduction\<close> is rejected by \<open>is_likely_heading\<close>
  whatever its size, its bold flag and the body size: the form-field filter matches it before
  the numbered pattern is tried. \<open>simple_heading_detection\<close> alone gives it the level H1, but
  the program returns an outline without any entry of the text \<^verbatim>\<open>1. Introduction\<close> followed
  by a space, for every document.
\<close>

theorem numbered_line_with_period_is_filtered:
  "\<not> is_likely_heading ''1. Introduction'' sz b bs \<and>
   re_match FORM_FIELD_PATTERN (strip ''1. Introduction'') \<and>
   simple_heading_detection ''1. Introduction'' sz b bs = Some H1 \<and>
   (\<exists>r. process_pdf_simple ls stem = Inr r \<and>
        (\<forall>lvl pg. \<lparr>level_h = lvl, text_h = ''1. Introduction '', page_h = pg\<rparr>
                     \<notin> set (outline r)))"
proof -
  obtain r where r: "process_pdf_simple ls stem = Inr r"
    using process_pdf_simple_total by blast
  obtain bsz where bsz: "get_body_size ls = Inr bsz"
    using get_body_size_total by blast
  have absent: "\<lparr>level_h = lvl, text_h = ''1. Introduction '', page_h = pg\<rparr> \<notin> set (outline r)"
    for lvl pg
  proof
    assume "\<lparr>level_h = lvl, text_h = ''1. Introduction '', page_h = pg\<rparr> \<in> set (outline r)"
    from outline_provenance [OF r bsz this] show False
    proof (elim exE conjE)
      fix l' lvl'
      assume gate: "is_likely_heading (text_l l') (size_l l') (bold_l l') bsz"
        and entry: "\<lparr>level_h = lvl, text_h = ''1. Introduction '', page_h = pg\<rparr> =
              \<lparr>level_h = lvl', text_h = strip (text_l l') @ '' '', page_h = page_l l'\<rparr>"
      from entry have "strip (text_l l') @ '' '' = ''1. Introduction'' @ '' ''" by simp
      then have "strip (text_l l') = ''1. Introduction''"
        unfolding append_same_eq .
      then have same: "strip (text_l l') = strip ''1. Introduction''"
        by (simp only: strip_1_dot_Introduction)
      from gate_depends_on_text [OF gate_1_dot_Introduction level_1_dot_Introduction same] gate
      show False by blast
    qed
  qed
  have "re_match FORM_FIELD_PATTERN (strip ''1. Introduction'')"
    unfolding strip_1_dot_Introduction by (rule form_field_1_dot_Introduction)
  with gate_1_dot_Introduction level_1_dot_Introduction r absent show ?thesis by blast
qed

theorem numbered_line_with_period_is_filtered_witness:
  "\<not> is_likely_heading ''1. Introduction'' 14 True 11 \<and>
   simple_heading_detection ''1. Introduction'' 14 True 11 = Some H1 \<and>
   scenario_1_line \<in> set scenario_1_summary_doc \<and>
   get_body_size scenario_1_summary_doc = Inr 11 \<and>
   (\<exists>r. process_pdf_simple scenario_1_summary_doc ''report'' = Inr r \<and>
        outline r = [\<lparr>level_h = H1, text_h = ''Summary '', page_h = 1\<rparr>] \<and>
        \<lparr>level_h = H1, text_h = ''1. Introduction '', page_h = 1\<rparr> \<notin> set (outline r))"
proof -
  have mem: "scenario_1_line \<in> set scenario_1_summary_doc"
    by (simp add: scenario_1_summary_doc_def scenario_1_doc_def)
  have body: "get_body_size scenario_1_summary_doc = Inr 11" by code_simp
  have val: "process_pdf_simple scenario_1_summary_doc ''report'' =
      Inr \<lparr>title = ''1. Introduction'',
           outline = [\<lparr>level_h = H1, text_h = ''Summary '', page_h = 1\<rparr>]\<rparr>"
    by code_simp
  from numbered_line_with_period_is_filtered [of 14 True 11 scenario_1_summary_doc "''report''"]
  obtain r where gate: "\<not> is_likely_heading ''1. Introduction'' 14 True 11"
    and lvl: "simple_heading_detection ''1. Introduction'' 14 True 11 = Some H1"
    and r: "process_pdf_simple scenario_1_summary_doc ''report'' = Inr r"
    and absent: "\<lparr>level_h = H1, text_h = ''1. Introduction '', page_h = 1\<rparr> \<notin> set (outline r)"
    by blast
  from r val have "outline r = [\<lparr>level_h = H1, text_h = ''Summary '', page_h = 1\<rparr>]"
    by auto
  with gate lvl mem body r absent show ?thesis by blast
qed

theorem scenario_1_outline_lacks_the_entry:
  "text_l scenario_1_line = ''1. Introduction'' \<and> size_l scenario_1_line = 14 \<and>
   bold_l scenario_1_line \<and> page_l scenario_1_line = 1 \<and>
   scenario_1_line \<in> set scenario_1_doc \<and>
   get_body_size scenario_1_doc = Inr 11 \<and>
   \<not> is_likely_heading ''1. Introduction'' 14 True 11 \<and>
   process_pdf_simple scenario_1_doc ''report'' =
     Inr \<lparr>title = ''1. Introduction'', outline = []\<rparr>"
proof -
  have line: "text_l scenario_1_line = ''1. Introduction'' \<and> size_l scenario_1_line = 14 \<and>
      bold_l scenario_1_line \<and> page_l scenario_1_line = 1"
    by (simp add: scenario_1_line_def)
  have mem: "scenario_1_line \<in> set scenario_1_doc" by (simp add: scenario_1_doc_def)
  have body: "get_body_size scenario_1_doc = Inr 11" by code_simp
  have gate: "\<not> is_likely_heading ''1. Introduction'' 14 True 11" by code_simp
  have val: "process_pdf_simple scenario_1_doc ''report'' =
      Inr \<lparr>title = ''1. Introduction'', outline = []\<rparr>"
    by code_simp
  from line mem body gate val show ?thesis by blast
qed

section \<open>Texts that end in a colon\<close>

lemma dropWhile_keeps_last: "\<not> P c \<Longrightarrow> \<exists>w'. dropWhile P (w @ [c]) = w' @ [c]"
  by (induction w) auto

lemma colon_is_no_space: "\<not> is_space CHR '':''"
  by code_simp

lemma lower_colon: "lower '':'' = '':''"
  by code_simp

lemma endswith_colon_strip_lower:
  assumes "endswith s '':''"
  shows "endswith (strip (lower s)) '':''"
proof -
  from assms obtain u where "s = u @ '':''"
    using endswith_append by blast
  then have "lower s = lower u @ [CHR '':'']"
    using lower_colon by (simp add: lower_append)
  moreover obtain w' where "dropWhile is_space (lower u @ [CHR '':'']) = w' @ [CHR '':'']"
    using dropWhile_keeps_last [of is_space "CHR '':''" "lower u"] colon_is_no_space by blast
  ultimately have "strip (lower s) = w' @ [CHR '':'']"
    using colon_is_no_space by (simp add: strip_def)
  then show ?thesis by (simp add: endswith_def)
qed

lemma known_heading_has_no_colon: "endswith t '':'' \<Longrightarrow> t \<notin> set KNOWN_H1_HEADINGS"
  by (auto simp: KNOWN_H1_HEADINGS_def endswith_def)

text \<open>
  C2, as the program has it. Let the trimmed text end in a colon and have a length from 40 to
  49, and let its lower-case form neither begin with \<^verbatim>\<open>for each\<close> nor be \<^verbatim>\<open>timeline:\<close> or
  \<^verbatim>\<open>milestones:\<close>. Then the rule of the colon assigns no level and the rules after it are
  still tried: the result is the level of a numbered or appendix pattern if one matches, else
  H3 if the lower-case text begins with \<^verbatim>\<open>phase\<close> and a space, else H2 if the line is bold
  and more than 2 larger than the body size, and no level otherwise.
\<close>

theorem long_colon_line_falls_through:
  assumes "endswith (strip text) '':''"
    and "40 \<le> length (strip text)" and "length (strip text) \<le> 49"
    and "\<not> startswith (strip (lower (strip text))) ''for each''"
    and "strip (lower (strip text)) \<notin> set [''timeline:'', ''milestones:'']"
  shows "simple_heading_detection text size_f bold body_size =
           (if re_match SUB_SUB_NUMBERED_PATTERN (strip text) then Some H3
            else if re_match SUB_NUMBERED_PATTERN (strip text) then Some H2
            else if re_match NUMBERED_PATTERN (strip text) then Some H1
            else if re_match APPENDIX_PATTERN (strip text) then Some H2
            else if startswith (strip (lower (strip text))) ''phase '' then Some H3
            else if bold \<and> size_f > of_int body_size + 2 then Some H2
            else None)"
proof -
  have known: "strip (lower (strip text)) \<notin> set KNOWN_H1_HEADINGS"
    using assms(1) by (intro known_heading_has_no_colon endswith_colon_strip_lower)
  show ?thesis
    unfolding simple_heading_detection_def Let_def
    using known assms by simp
qed

theorem long_colon_line_falls_through_witness:
  "(endswith (strip phase_colon_text) '':'' \<and>
    40 \<le> length (strip phase_colon_text) \<and> length (strip phase_colon_text) \<le> 49 \<and>
    \<not> startswith (strip (lower (strip phase_colon_text))) ''for each'' \<and>
    strip (lower (strip phase_colon_text)) \<notin> set [''timeline:'', ''milestones:'']) \<and>
   startswith (strip (lower (strip phase_colon_text))) ''phase '' \<and>
   simple_heading_detection phase_colon_text 11 False 11 = Some H3"
proof -
  have colon: "endswith (strip phase_colon_text) '':''" by code_simp
  have lo: "40 \<le> length (strip phase_colon_text)" by code_simp
  have hi: "length (strip phase_colon_text) \<le> 49" by code_simp
  have each: "\<not> startswith (strip (lower (strip phase_colon_text))) ''for each''" by code_simp
  have tm: "strip (lower (strip phase_colon_text)) \<notin> set [''timeline:'', ''milestones:'']"
    by code_simp
  have pats: "\<not> re_match SUB_SUB_NUMBERED_PATTERN (strip phase_colon_text) \<and>
      \<not> re_match SUB_NUMBERED_PATTERN (strip phase_colon_text) \<and>
      \<not> re_match NUMBERED_PATTERN (strip phase_colon_text) \<and>
      \<not> re_match APPENDIX_PATTERN (strip phase_colon_text)"
    by code_simp
  have phase: "startswith (strip (lower (strip phase_colon_text))) ''phase ''" by code_simp
  from long_colon_line_falls_through [OF colon lo hi each tm, of 11 False 11] pats phase
  have "simple_heading_detection phase_colon_text 11 False 11 = Some H3"
    by simp
  with colon lo hi each tm phase show ?thesis by blast
qed

theorem long_colon_lines_get_levels:
  "endswith (strip phase_colon_text) '':'' \<and> length (strip phase_colon_text) = 42 \<and>
   \<not> startswith (strip (lower (strip phase_colon_text))) ''for each'' \<and>
   strip (lower (strip phase_colon_text)) \<notin> set [''timeline:'', ''milestones:''] \<and>
   simple_heading_detection phase_colon_text 11 False 11 = Some H3 \<and>
   endswith (strip bold_colon_text) '':'' \<and> length (strip bold_colon_text) = 42 \<and>
   \<not> startswith (strip (lower (strip bold_colon_text))) ''for each'' \<and>
   strip (lower (strip bold_colon_text)) \<notin> set [''timeline:'', ''milestones:''] \<and>
   simple_heading_detection bold_colon_text 14 True 11 = Some H2 \<and>
   get_body_size colon_doc = Inr 11 \<and>
   process_pdf_simple colon_doc ''plan'' =
     Inr \<lparr>title = ''Requirements for the new reporting system:'',
          outline =
            [\<lparr>level_h = H3, text_h = ''Phase 2: design review and implementation: '',
              page_h = 1\<rparr>,
             \<lparr>level_h = H2, text_h = ''Requirements for the new reporting system: '',
              page_h = 1\<rparr>]\<rparr>"
proof -
  have p1: "endswith (strip phase_colon_text) '':''" by code_simp
  have p2: "length (strip phase_colon_text) = 42" by code_simp
  have p3: "\<not> startswith (strip (lower (strip phase_colon_text))) ''for each''" by code_simp
  have p4: "strip (lower (strip phase_colon_text)) \<notin> set [''timeline:'', ''milestones:'']"
    by code_simp
  have p5: "simple_heading_detection phase_colon_text 11 False 11 = Some H3" by code_simp
  have b1: "endswith (strip bold_colon_text) '':''" by code_simp
  have b2: "length (strip bold_colon_text) = 42" by code_simp
  have b3: "\<not> startswith (strip (lower (strip bold_colon_text))) ''for each''" by code_simp
  have b4: "strip (lower (strip bold_colon_text)) \<notin> set [''timeline:'', ''milestones:'']"
    by code_simp
  have b5: "simple_heading_detection bold_colon_text 14 True 11 = Some H2" by code_simp
  have body: "get_body_size colon_doc = Inr 11" by code_simp
  have val: "process_pdf_simple colon_doc ''plan'' =
     Inr \<lparr>title = ''Requirements for the new reporting system:'',
          outline =
            [\<lparr>level_h = H3, text_h = ''Phase 2: design review and implementation: '',
              page_h = 1\<rparr>,
             \<lparr>level_h = H2, text_h = ''Requirements for the new reporting system: '',
              page_h = 1\<rparr>]\<rparr>"
    by code_simp
  from p1 p2 p3 p4 p5 b1 b2 b3 b4 b5 body val show ?thesis by blast
qed


end
